theory Spec2Isabelle
  imports Main
begin

section \<open>The persistent variable store of package vars (pkg/core/vars/map.go)\<close>

text \<open>
  The store is the Go struct \<^verbatim>\<open>Map\<close>: a map from string keys to string values, the path of
  a backing file, and the modification time seen at the last load. Go strings are byte
  sequences, so they are \<^typ>\<open>string\<close> here. The mutex of the struct guards single steps
  only; the model is sequential and leaves it out. The stores are those that \<^verbatim>\<open>NewMap\<close>
  and \<^verbatim>\<open>NewMapFrom\<close> make: the field \<^verbatim>\<open>M\<close> is never the nil map.
\<close>

subsection \<open>Characters of the file format\<close>

definition LF :: char where "LF = CHR 0x0A"
definition CR :: char where "CR = CHR 0x0D"
definition BSL :: char where "BSL = CHR 0x5C"
definition EQS :: char where "EQS = CHR ''=''"

subsection \<open>Helpers of package to, and strings.SplitN\<close>

text \<open>
  Modelled from the spec: \<^verbatim>\<open>to.Lines\<close> (package pkg/core/to is not among the sources). The
  spec says that the text is parsed "as newline-separated key=value records": the text is
  cut at every line feed, and an empty rest after the last line feed is no line.
\<close>

fun lines_from :: "string \<Rightarrow> string \<Rightarrow> string list" where
  "lines_from cur [] = (if cur = [] then [] else [cur])"
| "lines_from cur (c # cs) =
     (if c = LF then cur # lines_from [] cs else lines_from (cur @ [c]) cs)"

definition Lines :: "string \<Rightarrow> string list" where
  "Lines s = lines_from [] s"

text \<open>
  Modelled from the spec: \<^verbatim>\<open>to.EscReturns\<close> (package pkg/core/to is not among the sources).
  The spec says that values have "carriage-return and line-feed characters escaped to a
  two-character sequence"; the sequences are backslash r and backslash n, and every other
  character, the backslash too, is written as it is.
\<close>

fun EscReturns :: "string \<Rightarrow> string" where
  "EscReturns [] = []"
| "EscReturns (c # cs) =
     (if c = CR then BSL # CHR ''r'' # EscReturns cs
      else if c = LF then BSL # CHR ''n'' # EscReturns cs
      else c # EscReturns cs)"

text \<open>
  Modelled from the spec: \<^verbatim>\<open>to.UnEscReturns\<close> (package pkg/core/to is not among the
  sources). The spec says that values are "unescaped symmetrically on load": scanning from the
  left, backslash r becomes a carriage return, backslash n a line feed, and every other
  character stays.
\<close>

fun UnEscReturns :: "string \<Rightarrow> string" where
  "UnEscReturns (b # c # cs) =
     (if b = BSL \<and> c = CHR ''r'' then CR # UnEscReturns cs
      else if b = BSL \<and> c = CHR ''n'' then LF # UnEscReturns cs
      else b # UnEscReturns (c # cs))"
| "UnEscReturns cs = cs"

text \<open>
  \<^verbatim>\<open>strings.SplitN(line, "=", 2)\<close> of the Go library: the line cut at its first separator,
  or the line alone when it has none.
\<close>

fun cut_first :: "char \<Rightarrow> string \<Rightarrow> (string \<times> string) option" where
  "cut_first sep [] = None"
| "cut_first sep (c # cs) =
     (if c = sep then Some ([], cs)
      else (case cut_first sep cs of None \<Rightarrow> None | Some (a, b) \<Rightarrow> Some (c # a, b)))"

definition SplitN2 :: "string \<Rightarrow> char \<Rightarrow> string list" where
  "SplitN2 line sep = (case cut_first sep line of None \<Rightarrow> [line] | Some (a, b) \<Rightarrow> [a, b])"

subsection \<open>The store, the file system and errors\<close>

record vars_Map =
  M :: "string \<rightharpoonup> string"
  File :: string
  lastload :: nat

datatype syscall = SysStat | SysOpen | SysRead | SysFstat | SysClose | SysWrite

text \<open>
  The errors: \<^verbatim>\<open>NotFound{key}\<close> as Get and Match build it (the type is declared in a file
  of the package that is not among the sources; it carries the key or the pattern), the error
  of a failed system call on a path, and the result of \<^verbatim>\<open>errors.Join\<close>.
\<close>

datatype error = NotFound string | PathError syscall string | JoinError "error list"

text \<open>
  The file system as the store sees it: the files by path, each with content and modification
  time; the system calls that fail on a path (a missing file fails to stat and to open without
  being listed); the clock that stamps the next write; and the number of writes done so far,
  kept for the claims that count disk writes.
\<close>

record disk_file =
  content :: string
  mtime :: nat

record world =
  files :: "string \<rightharpoonup> disk_file"
  faults :: "(syscall \<times> string) set"
  now :: nat
  writes :: nat

datatype 'a outcome = Return 'a | Panic string

definition errors_Join :: "error option \<Rightarrow> error option \<Rightarrow> error option" where
  "errors_Join a b =
     (case (a, b) of
        (None, None) \<Rightarrow> None
      | (Some x, None) \<Rightarrow> Some (JoinError [x])
      | (None, Some y) \<Rightarrow> Some (JoinError [y])
      | (Some x, Some y) \<Rightarrow> Some (JoinError [x, y]))"

definition os_Stat :: "world \<Rightarrow> string \<Rightarrow> error + nat" where
  "os_Stat w p =
     (if (SysStat, p) \<in> faults w then Inl (PathError SysStat p)
      else (case files w p of None \<Rightarrow> Inl (PathError SysStat p) | Some f \<Rightarrow> Inr (mtime f)))"

definition os_Open :: "world \<Rightarrow> string \<Rightarrow> error + disk_file" where
  "os_Open w p =
     (if (SysOpen, p) \<in> faults w then Inl (PathError SysOpen p)
      else (case files w p of None \<Rightarrow> Inl (PathError SysOpen p) | Some f \<Rightarrow> Inr f))"

text \<open>
  Modelled from the spec: \<^verbatim>\<open>futil.Overwrite\<close> (package pkg/core/futil is not among the
  sources). The spec says that it overwrites the file with the given content and reports the
  I/O error on failure. A write that succeeds creates the file when it is missing and stamps it
  with the clock.
\<close>

definition Overwrite :: "world \<Rightarrow> string \<Rightarrow> string \<Rightarrow> error option \<times> world" where
  "Overwrite w p buf =
     (if (SysWrite, p) \<in> faults w then (Some (PathError SysWrite p), w)
      else (None, w\<lparr>files := (files w)(p \<mapsto> \<lparr>content = buf, mtime = now w\<rparr>),
                     writes := Suc (writes w)\<rparr>))"

subsection \<open>Loading\<close>

definition NewMap :: vars_Map where
  "NewMap = \<lparr>M = Map.empty, File = [], lastload = 0\<rparr>"

text \<open>The loop of \<^verbatim>\<open>UnmarshalText\<close> over the lines, on the map it assigns into.\<close>

fun unmarshal_lines :: "string list \<Rightarrow> (string \<rightharpoonup> string) \<Rightarrow> (string \<rightharpoonup> string)" where
  "unmarshal_lines [] mp = mp"
| "unmarshal_lines (line # rest) mp =
     (let parts = SplitN2 line EQS
      in if length parts = 2
         then unmarshal_lines rest (mp(parts ! 0 \<mapsto> UnEscReturns (parts ! 1)))
         else unmarshal_lines rest mp)"

definition UnmarshalText :: "vars_Map \<Rightarrow> string \<Rightarrow> error option \<times> vars_Map" where
  "UnmarshalText c inp = (None, c\<lparr>M := unmarshal_lines (Lines inp) (M c)\<rparr>)"

definition Load :: "vars_Map \<Rightarrow> string \<Rightarrow> error option \<times> vars_Map" where
  "Load m keyvals = UnmarshalText m keyvals"

definition loadFile :: "world \<Rightarrow> vars_Map \<Rightarrow> string \<Rightarrow> error option \<times> vars_Map" where
  "loadFile w c path =
     (case os_Open w path of
        Inl e \<Rightarrow> (Some e, c)
      | Inr f \<Rightarrow>
          (let closeerr = (if (SysClose, path) \<in> faults w
                           then Some (PathError SysClose path) else None)
           in if (SysRead, path) \<in> faults w
              then (errors_Join closeerr (Some (PathError SysRead path)), c)
              else if (SysFstat, path) \<in> faults w
              then (errors_Join closeerr (Some (PathError SysFstat path)), c)
              else (case Load (c\<lparr>lastload := mtime f\<rparr>) (content f) of
                      (err, c') \<Rightarrow> (errors_Join closeerr err, c'))))"

definition NewMapFrom :: "world \<Rightarrow> string \<Rightarrow> vars_Map \<times> error option" where
  "NewMapFrom w path =
     (let m = NewMap\<lparr>File := path\<rparr>
      in (case loadFile w m (File m) of (err, m') \<Rightarrow> (m', err)))"

definition fileHasChanged :: "world \<Rightarrow> vars_Map \<Rightarrow> bool" where
  "fileHasChanged w m =
     (case os_Stat w (File m) of Inl e \<Rightarrow> True | Inr t \<Rightarrow> lastload m < t)"

definition refresh :: "world \<Rightarrow> vars_Map \<Rightarrow> error option \<times> vars_Map" where
  "refresh w m = (if \<not> fileHasChanged w m then (None, m) else loadFile w m (File m))"

subsection \<open>Saving\<close>

text \<open>
  A \<^verbatim>\<open>range\<close> over a Go map visits the entries in an order the runtime picks. The order is
  a parameter \<open>ord\<close> of every operation that ranges: the list of entries it visits for a map.
  \<open>range_of\<close> says that a list is such a visit of a map: every key once, with its value.
\<close>

type_synonym ranger = "(string \<rightharpoonup> string) \<Rightarrow> (string \<times> string) list"

definition range_of :: "(string \<rightharpoonup> string) \<Rightarrow> (string \<times> string) list \<Rightarrow> bool" where
  "range_of mp kvs = (distinct (map fst kvs) \<and> map_of kvs = mp)"

fun marshal_entries :: "(string \<times> string) list \<Rightarrow> string" where
  "marshal_entries [] = []"
| "marshal_entries ((k, v) # kvs) = k @ [EQS] @ EscReturns v @ [LF] @ marshal_entries kvs"

definition MarshalText :: "ranger \<Rightarrow> vars_Map \<Rightarrow> string \<times> error option" where
  "MarshalText ord c = (marshal_entries (ord (M c)), None)"

definition save :: "ranger \<Rightarrow> world \<Rightarrow> vars_Map \<Rightarrow> error option \<times> world" where
  "save ord w m =
     (case MarshalText ord m of
        (byt, Some err) \<Rightarrow> (Some err, w)
      | (byt, None) \<Rightarrow> Overwrite w (File m) byt)"

subsection \<open>The public operations\<close>

text \<open>
  Modelled from the spec: \<^verbatim>\<open>maps.Clear\<close> (package pkg/core/fn/maps is not among the
  sources). The spec says that Clear "empties the in-memory mapping".
\<close>

definition maps_Clear :: "(string \<rightharpoonup> string) \<Rightarrow> (string \<rightharpoonup> string)" where
  "maps_Clear mp = Map.empty"

definition Clear :: "world \<Rightarrow> vars_Map \<Rightarrow> error option \<times> vars_Map \<times> world" where
  "Clear w m = (None, m\<lparr>M := maps_Clear (M m)\<rparr>, w)"

definition Get :: "world \<Rightarrow> vars_Map \<Rightarrow> string \<Rightarrow> (string \<times> error option) \<times> vars_Map" where
  "Get w m key =
     (case refresh w m of
        (ignored, m') \<Rightarrow>
          (case M m' key of
             Some val \<Rightarrow> ((val, None), m')
           | None \<Rightarrow> (([], Some (NotFound key)), m')))"

text \<open>
  \<^verbatim>\<open>regexp.Compile\<close> of the Go library is a parameter \<open>rx\<close>: for a pattern, the matcher it
  compiles to, or nothing when the pattern does not compile. \<^verbatim>\<open>regexp.MustCompile\<close> panics
  in the second case; the outcome \<open>Panic\<close> carries the pattern it was called on.
\<close>

type_synonym regexp = "string \<Rightarrow> (string \<Rightarrow> bool) option"

fun first_match :: "(string \<Rightarrow> bool) \<Rightarrow> (string \<times> string) list \<Rightarrow> string option" where
  "first_match x [] = None"
| "first_match x ((k, v) # kvs) = (if x k then Some v else first_match x kvs)"

definition Match ::
  "regexp \<Rightarrow> ranger \<Rightarrow> world \<Rightarrow> vars_Map \<Rightarrow> string \<Rightarrow> (string \<times> error option) outcome \<times> vars_Map" where
  "Match rx ord w m regx =
     (case refresh w m of
        (ignored, m') \<Rightarrow>
          (case rx regx of
             None \<Rightarrow> (Panic regx, m')
           | Some x \<Rightarrow>
               (case first_match x (ord (M m')) of
                  Some v \<Rightarrow> (Return (v, None), m')
                | None \<Rightarrow> (Return ([], Some (NotFound regx)), m'))))"

definition Set :: "ranger \<Rightarrow> world \<Rightarrow> vars_Map \<Rightarrow> string \<Rightarrow> string \<Rightarrow> error option \<times> vars_Map \<times> world" where
  "Set ord w m key val =
     (case refresh w m of
        (ignored, m') \<Rightarrow>
          (if (case M m' key of Some cur \<Rightarrow> val = cur | None \<Rightarrow> False)
           then (None, m', w)
           else (let m'' = m'\<lparr>M := (M m')(key \<mapsto> val)\<rparr>
                 in (case save ord w m'' of (err, w') \<Rightarrow> (err, m'', w')))))"

definition Delete :: "ranger \<Rightarrow> world \<Rightarrow> vars_Map \<Rightarrow> string \<Rightarrow> error option \<times> vars_Map \<times> world" where
  "Delete ord w m key =
     (case refresh w m of
        (Some err, m') \<Rightarrow> (Some err, m', w)
      | (None, m') \<Rightarrow>
          (let m'' = m'\<lparr>M := (M m')(key := None)\<rparr>
           in (case save ord w m'' of (err, w') \<Rightarrow> (err, m'', w'))))"

subsection \<open>Notions the properties are stated with\<close>

text \<open>The keys that the loop of \<^verbatim>\<open>UnmarshalText\<close> assigns, in the order of the lines.\<close>

fun line_keys :: "string list \<Rightarrow> string list" where
  "line_keys [] = []"
| "line_keys (line # rest) =
     (let parts = SplitN2 line EQS
      in if length parts = 2 then parts ! 0 # line_keys rest else line_keys rest)"

definition keys_of_text :: "string \<Rightarrow> string list" where
  "keys_of_text text = line_keys (Lines text)"

definition has_eq :: "string \<Rightarrow> bool" where
  "has_eq line = (EQS \<in> set line)"

text \<open>
  A key survives the file format when it has neither an equals sign nor a line feed; a mapping
  is well-keyed when all its keys do. A value survives escaping and unescaping when no
  backslash in it is followed by the letter r or n.
\<close>

definition key_ok :: "string \<Rightarrow> bool" where
  "key_ok k = (EQS \<notin> set k \<and> LF \<notin> set k)"

definition keys_ok :: "(string \<rightharpoonup> string) \<Rightarrow> bool" where
  "keys_ok mp = (dom mp \<subseteq> Collect key_ok)"

fun no_escape_pair :: "string \<Rightarrow> bool" where
  "no_escape_pair (b # c # cs) =
     (\<not> (b = BSL \<and> (c = CHR ''r'' \<or> c = CHR ''n'')) \<and> no_escape_pair (c # cs))"
| "no_escape_pair cs = True"

text \<open>The line that \<^verbatim>\<open>MarshalText\<close> writes for an entry, without its line feed.\<close>

fun entry_line :: "string \<times> string \<Rightarrow> string" where
  "entry_line (k, v) = k @ EQS # EscReturns v"

text \<open>Two calls of Set with the same key and value, one after the other.\<close>

definition Set_twice ::
  "ranger \<Rightarrow> world \<Rightarrow> vars_Map \<Rightarrow> string \<Rightarrow> string \<Rightarrow> error option \<times> vars_Map \<times> world" where
  "Set_twice ord w m k v = (case Set ord w m k v of (e1, m1, w1) \<Rightarrow> Set ord w1 m1 k v)"

text \<open>A store on the file at a path that holds the given entries and has loaded nothing yet.\<close>

definition store_of :: "string \<Rightarrow> (string \<rightharpoonup> string) \<Rightarrow> vars_Map" where
  "store_of p mp = \<lparr>M = mp, File = p, lastload = 0\<rparr>"

text \<open>A file system without files, and one with a single file; nothing fails, the clock reads 1.\<close>

definition no_files :: world where
  "no_files = \<lparr>files = Map.empty, faults = {}, now = 1, writes = 0\<rparr>"

definition one_file :: "string \<Rightarrow> string \<Rightarrow> world" where
  "one_file p text =
     \<lparr>files = [p \<mapsto> \<lparr>content = text, mtime = 1\<rparr>], faults = {}, now = 1, writes = 0\<rparr>"

text \<open>
  An instance of the regexp parameter for patterns of plain characters: such a pattern
  compiles to the search for it inside the key, as in Go. A pattern with a metacharacter is
  outside this fragment and is refused here; for the pattern of a single opening parenthesis
  that is what \<^verbatim>\<open>regexp.Compile\<close> does too (missing closing parenthesis).
\<close>

definition metachars :: string where
  "metachars = BSL # ''.+*?()|[]{}^$''"

fun has_infix :: "string \<Rightarrow> string \<Rightarrow> bool" where
  "has_infix p [] = (p = [])"
| "has_infix p (c # cs) = (take (length p) (c # cs) = p \<or> has_infix p cs)"

definition literal_regexp :: regexp where
  "literal_regexp p = (if set p \<inter> set metachars = {} then Some (has_infix p) else None)"

section \<open>Properties\<close>

subsection \<open>Splitting and the loop over the lines\<close>

lemmas world_defs = no_files_def one_file_def store_of_def NewMap_def
lemmas op_defs = refresh_def fileHasChanged_def os_Stat_def os_Open_def loadFile_def Load_def
  UnmarshalText_def save_def MarshalText_def Overwrite_def errors_Join_def NewMapFrom_def
lemmas char_defs = LF_def CR_def BSL_def EQS_def Lines_def SplitN2_def

lemma cut_first_None: "cut_first sep s = None \<longleftrightarrow> sep \<notin> set s"
  by (induction s) (auto split: option.splits)

lemma cut_first_append: "sep \<notin> set a \<Longrightarrow> cut_first sep (a @ sep # b) = Some (a, b)"
  by (induction a) auto

lemma length_SplitN2: "length (SplitN2 line sep) = 2 \<longleftrightarrow> sep \<in> set line"
  using cut_first_None [of sep line]
  by (auto simp: SplitN2_def split: option.splits)

lemma SplitN2_append: "sep \<notin> set a \<Longrightarrow> SplitN2 (a @ sep # b) sep = [a, b]"
  by (simp add: SplitN2_def cut_first_append)

lemma unmarshal_lines_frame:
  "k \<notin> set (line_keys ls) \<Longrightarrow> unmarshal_lines ls mp k = mp k"
  by (induction ls arbitrary: mp) (auto simp: Let_def)

lemma unmarshal_lines_filter:
  "unmarshal_lines ls mp = unmarshal_lines (filter has_eq ls) mp"
  by (induction ls arbitrary: mp) (auto simp: Let_def has_eq_def length_SplitN2)

lemma File_loadFile: "File (snd (loadFile w c p)) = File c"
  by (auto simp: loadFile_def Load_def UnmarshalText_def Let_def split: sum.splits)

lemma File_refresh: "File (snd (refresh w m)) = File m"
  by (simp add: refresh_def File_loadFile)

subsection \<open>Load\<close>

text \<open>
  C2. Load merges into the mapping: an entry whose key is not a key of the parsed text is
  present with its old value after the load. With the entry a=1 in the store, loading the
  text b=2 leaves a=1 and b=2 present.
\<close>

theorem Load_merges:
  "k \<notin> set (keys_of_text text) \<Longrightarrow> M (snd (Load m text)) k = M m k"
  by (simp add: Load_def UnmarshalText_def keys_of_text_def unmarshal_lines_frame)

theorem Load_merges_witness:
  "''a'' \<notin> set (keys_of_text ''b=2'')
   \<and> M (snd (Load (NewMap\<lparr>M := [''a'' \<mapsto> ''1'']\<rparr>) ''b=2'')) ''a'' = Some ''1''
   \<and> M (snd (Load (NewMap\<lparr>M := [''a'' \<mapsto> ''1'']\<rparr>) ''b=2'')) ''b'' = Some ''2''"
proof -
  have h: "''a'' \<notin> set (keys_of_text ''b=2'')"
    by (simp add: keys_of_text_def Lines_def LF_def SplitN2_def EQS_def)
  have b: "M (snd (Load (NewMap\<lparr>M := [''a'' \<mapsto> ''1'']\<rparr>) ''b=2'')) ''b'' = Some ''2''"
    by (simp add: Load_def UnmarshalText_def Lines_def LF_def SplitN2_def EQS_def)
  from Load_merges [OF h, of "NewMap\<lparr>M := [''a'' \<mapsto> ''1'']\<rparr>"] h b show ?thesis by simp
qed

text \<open>
  C6. Load returns no error for any text, and a line without an equals sign changes nothing:
  the mapping after the load is the one that the lines with an equals sign alone produce.
  Loading the three lines a=1, malformedline, b=2 into an empty store gives exactly the
  entries a=1 and b=2.
\<close>

theorem Load_skips_malformed_lines:
  "fst (Load m text) = None
   \<and> M (snd (Load m text)) = unmarshal_lines (filter has_eq (Lines text)) (M m)
   \<and> Load NewMap (''a=1'' @ [LF] @ ''malformedline'' @ [LF] @ ''b=2'')
       = (None, NewMap\<lparr>M := [''a'' \<mapsto> ''1'', ''b'' \<mapsto> ''2'']\<rparr>)"
proof (intro conjI)
  show "fst (Load m text) = None" by (simp add: Load_def UnmarshalText_def)
  show "M (snd (Load m text)) = unmarshal_lines (filter has_eq (Lines text)) (M m)"
    using unmarshal_lines_filter [of "Lines text" "M m"]
    by (simp add: Load_def UnmarshalText_def)
  show "Load NewMap (''a=1'' @ [LF] @ ''malformedline'' @ [LF] @ ''b=2'')
       = (None, NewMap\<lparr>M := [''a'' \<mapsto> ''1'', ''b'' \<mapsto> ''2'']\<rparr>)"
    by (simp add: Load_def UnmarshalText_def NewMap_def Lines_def LF_def SplitN2_def EQS_def)
qed

subsection \<open>Clear\<close>

text \<open>
  C9. Clear returns no error, leaves the store with an empty mapping (path and load time as
  they were), and hands back the file system it was given: no file is written, and the
  content of the backing file is what it was.
\<close>

theorem Clear_memory_only:
  "Clear w m = (None, m\<lparr>M := Map.empty\<rparr>, w)"
  by (simp add: Clear_def maps_Clear_def)

subsection \<open>Get\<close>

text \<open>
  C7. Get looks the key up in the mapping as the refresh leaves it. When the key is absent
  there, Get returns the empty string together with the NotFound error that carries the key;
  when the key is present, Get returns its value and no error.
\<close>

theorem Get_value_or_NotFound:
  "(M (snd (refresh w m)) key = None \<longrightarrow> fst (Get w m key) = ([], Some (NotFound key)))
   \<and> (\<forall>v. M (snd (refresh w m)) key = Some v \<longrightarrow> fst (Get w m key) = (v, None))"
  by (auto simp: Get_def split: prod.splits option.splits)

theorem Get_value_or_NotFound_witness:
  "M (snd (refresh no_files (store_of ''f'' Map.empty))) ''missing'' = None
   \<and> fst (Get no_files (store_of ''f'' Map.empty) ''missing'') = ([], Some (NotFound ''missing''))
   \<and> M (snd (refresh (one_file ''f'' ''a=1'') (store_of ''f'' Map.empty))) ''a'' = Some ''1''
   \<and> fst (Get (one_file ''f'' ''a=1'') (store_of ''f'' Map.empty) ''a'') = (''1'', None)"
proof -
  have h1: "M (snd (refresh no_files (store_of ''f'' Map.empty))) ''missing'' = None"
    by (simp add: world_defs op_defs)
  have h2: "M (snd (refresh (one_file ''f'' ''a=1'') (store_of ''f'' Map.empty))) ''a'' = Some ''1''"
    by (simp add: world_defs op_defs char_defs)
  from Get_value_or_NotFound [of no_files "store_of ''f'' Map.empty" "''missing''"]
       Get_value_or_NotFound [of "one_file ''f'' ''a=1''" "store_of ''f'' Map.empty" "''a''"]
       h1 h2
  show ?thesis by blast
qed

subsection \<open>Set with an equals sign in the key\<close>

text \<open>
  C10. Set does not look at its key. On an empty store without a backing file,
  Set("a=b", "c") succeeds and writes the line a=b=c. A store loaded from that file holds the
  key a with the value b=c, and the key a=b is not found in it. The store that made the call
  finds the key a with the value b=c as well, at its next Get, which reloads the file.
\<close>

theorem Set_key_with_equals_sign:
  "range_of [''a=b'' \<mapsto> ''c''] [(''a=b'', ''c'')]
   \<and> Set (\<lambda>mp. [(''a=b'', ''c'')]) no_files (store_of ''f'' Map.empty) ''a=b'' ''c''
     = (None, store_of ''f'' [''a=b'' \<mapsto> ''c''],
        \<lparr>files = [''f'' \<mapsto> \<lparr>content = ''a=b=c'' @ [LF], mtime = 1\<rparr>], faults = {}, now = 1, writes = 1\<rparr>)
   \<and> NewMapFrom \<lparr>files = [''f'' \<mapsto> \<lparr>content = ''a=b=c'' @ [LF], mtime = 1\<rparr>], faults = {}, now = 1, writes = 1\<rparr> ''f''
     = (\<lparr>M = [''a'' \<mapsto> ''b=c''], File = ''f'', lastload = 1\<rparr>, None)
   \<and> fst (Get \<lparr>files = [''f'' \<mapsto> \<lparr>content = ''a=b=c'' @ [LF], mtime = 1\<rparr>], faults = {}, now = 1, writes = 1\<rparr>
             \<lparr>M = [''a'' \<mapsto> ''b=c''], File = ''f'', lastload = 1\<rparr> ''a=b'')
     = ([], Some (NotFound ''a=b''))
   \<and> fst (Get \<lparr>files = [''f'' \<mapsto> \<lparr>content = ''a=b=c'' @ [LF], mtime = 1\<rparr>], faults = {}, now = 1, writes = 1\<rparr>
             \<lparr>M = [''a'' \<mapsto> ''b=c''], File = ''f'', lastload = 1\<rparr> ''a'')
     = (''b=c'', None)
   \<and> fst (Get \<lparr>files = [''f'' \<mapsto> \<lparr>content = ''a=b=c'' @ [LF], mtime = 1\<rparr>], faults = {}, now = 1, writes = 1\<rparr>
             (store_of ''f'' [''a=b'' \<mapsto> ''c'']) ''a'')
     = (''b=c'', None)"
  by (simp add: range_of_def Set_def Get_def world_defs op_defs char_defs)

subsection \<open>Match\<close>


lemma range_of_dom: "range_of mp kvs \<Longrightarrow> fst ` set kvs = dom mp"
  by (force simp: range_of_def dom_map_of_conv_image_fst)




subsection \<open>The refresh before each operation\<close>

lemma stat_failure_reloads:
  "os_Stat w (File m) = Inl e \<Longrightarrow> fileHasChanged w m \<and> refresh w m = loadFile w m (File m)"
  by (simp add: refresh_def fileHasChanged_def)

lemma operations_refresh_first:
  "snd (Get w m key) = snd (refresh w m)"
  "snd (Match rx ord w m regx) = snd (refresh w m)"
  "fst (snd (Set ord w m key val)) = snd (refresh w m)
   \<or> fst (snd (Set ord w m key val)) = (snd (refresh w m))\<lparr>M := (M (snd (refresh w m)))(key \<mapsto> val)\<rparr>"
  "fst (snd (Delete ord w m key)) = snd (refresh w m)
   \<or> fst (snd (Delete ord w m key)) = (snd (refresh w m))\<lparr>M := (M (snd (refresh w m)))(key := None)\<rparr>"
  by (auto simp: Get_def Match_def Set_def Delete_def Let_def split: prod.splits option.splits)

lemma Delete_surfaces_refresh_error:
  "fst (refresh w m) = Some e \<Longrightarrow> Delete ord w m key = (Some e, snd (refresh w m), w)"
  by (cases "refresh w m") (auto simp: Delete_def)

text \<open>
  C3. Every operation starts with the refresh, and a file that cannot be stat'ed counts as
  changed and is reloaded (the three lemmas above). The reload error reaches the caller of
  Delete only. With the entry k=v in the store and no backing file on disk, the stat fails,
  the reload fails to open the file, and yet Get returns v (or NotFound for another key),
  Match returns v and Set returns success, all without the error; Delete returns it.
\<close>

theorem refresh_error_dropped:
  "os_Stat no_files ''f'' = Inl (PathError SysStat ''f'')
   \<and> fileHasChanged no_files (store_of ''f'' [''k'' \<mapsto> ''v''])
   \<and> refresh no_files (store_of ''f'' [''k'' \<mapsto> ''v''])
       = (Some (PathError SysOpen ''f''), store_of ''f'' [''k'' \<mapsto> ''v''])
   \<and> fst (Get no_files (store_of ''f'' [''k'' \<mapsto> ''v'']) ''k'') = (''v'', None)
   \<and> fst (Get no_files (store_of ''f'' [''k'' \<mapsto> ''v'']) ''x'') = ([], Some (NotFound ''x''))
   \<and> fst (Match literal_regexp (\<lambda>mp. [(''k'', ''v'')]) no_files (store_of ''f'' [''k'' \<mapsto> ''v'']) ''k'')
       = Return (''v'', None)
   \<and> fst (Set (\<lambda>mp. [(''k'', ''w'')]) no_files (store_of ''f'' [''k'' \<mapsto> ''v'']) ''k'' ''w'') = None
   \<and> fst (Delete (\<lambda>mp. []) no_files (store_of ''f'' [''k'' \<mapsto> ''v'']) ''k'')
       = Some (PathError SysOpen ''f'')"
  by (simp add: Get_def Match_def Set_def Delete_def literal_regexp_def metachars_def
      world_defs op_defs char_defs)

subsection \<open>Escaping, and reading back what was written\<close>

lemmas set_defs = Set_def Get_def world_defs op_defs char_defs

lemma LF_notin_EscReturns: "LF \<notin> set (EscReturns v)"
  by (induction v) (auto simp: LF_def BSL_def)

lemma hd_EscReturns:
  "EscReturns (c # cs) = d # ds \<Longrightarrow> d = CHR ''r'' \<or> d = CHR ''n'' \<Longrightarrow> d = c"
  by (auto simp: BSL_def split: if_splits)

lemma UnEsc_Esc: "no_escape_pair v \<Longrightarrow> UnEscReturns (EscReturns v) = v"
proof (induction v rule: no_escape_pair.induct)
  case (1 b c cs)
  then have ih: "UnEscReturns (EscReturns (c # cs)) = c # cs" by simp
  from 1 have nb: "\<not> (b = BSL \<and> (c = CHR ''r'' \<or> c = CHR ''n''))" by simp
  obtain d ds where e: "EscReturns (c # cs) = d # ds"
    by (cases "EscReturns (c # cs)") (auto split: if_splits)
  show ?case
  proof (cases "b = CR \<or> b = LF")
    case True
    then show ?thesis using ih by (auto simp: CR_def LF_def BSL_def)
  next
    case False
    then have "EscReturns (b # c # cs) = b # d # ds" using e by simp
    moreover have "\<not> (b = BSL \<and> (d = CHR ''r'' \<or> d = CHR ''n''))"
      using nb hd_EscReturns [OF e] by blast
    ultimately show ?thesis using ih e by auto
  qed
qed (auto simp: CR_def LF_def BSL_def)

lemma lines_from_line:
  "LF \<notin> set l \<Longrightarrow> lines_from cur (l @ LF # rest) = (cur @ l) # lines_from [] rest"
  by (induction l arbitrary: cur) auto

lemma Lines_marshal_entries:
  "\<forall>k \<in> fst ` set kvs. LF \<notin> set k \<Longrightarrow> Lines (marshal_entries kvs) = map entry_line kvs"
proof (induction kvs)
  case Nil
  then show ?case by (simp add: Lines_def)
next
  case (Cons kv kvs)
  obtain k v where kv: "kv = (k, v)" by (cases kv)
  have "LF \<notin> set (k @ EQS # EscReturns v)"
    using Cons.prems kv LF_notin_EscReturns [of v] by (auto simp: LF_def EQS_def)
  from lines_from_line [OF this, of "[]" "marshal_entries kvs"] Cons kv
  show ?case by (simp add: Lines_def)
qed

lemma unmarshal_entry_lines:
  "distinct (map fst kvs) \<Longrightarrow> \<forall>k \<in> fst ` set kvs. EQS \<notin> set k \<Longrightarrow>
   unmarshal_lines (map entry_line kvs) mp k' =
     (case map_of kvs k' of Some v' \<Rightarrow> Some (UnEscReturns (EscReturns v')) | None \<Rightarrow> mp k')"
proof (induction kvs arbitrary: mp)
  case Nil
  then show ?case by simp
next
  case (Cons kv kvs)
  obtain k v where kv: "kv = (k, v)" by (cases kv)
  have s: "SplitN2 (entry_line kv) EQS = [k, EscReturns v]"
    using Cons.prems kv SplitN2_append [of EQS k "EscReturns v"] by simp
  have n: "map_of kvs k = None"
    using Cons.prems kv by (simp add: map_of_eq_None_iff)
  define u where "u = UnEscReturns (EscReturns v)"
  have step: "unmarshal_lines (map entry_line (kv # kvs)) mp k'
                = unmarshal_lines (map entry_line kvs) (mp(k \<mapsto> u)) k'"
    using s by (simp add: u_def)
  have ih: "unmarshal_lines (map entry_line kvs) (mp(k \<mapsto> u)) k' =
     (case map_of kvs k' of Some v' \<Rightarrow> Some (UnEscReturns (EscReturns v'))
      | None \<Rightarrow> (mp(k \<mapsto> u)) k')"
  proof -
    have d: "distinct (map fst kvs)" and e: "\<forall>k \<in> fst ` set kvs. EQS \<notin> set k"
      using Cons.prems by auto
    show ?thesis by (rule Cons.IH [OF d e])
  qed
  have "(case map_of kvs k' of Some v' \<Rightarrow> Some (UnEscReturns (EscReturns v'))
      | None \<Rightarrow> (mp(k \<mapsto> u)) k')
      = (case map_of (kv # kvs) k' of Some v' \<Rightarrow> Some (UnEscReturns (EscReturns v'))
      | None \<Rightarrow> mp k')"
    using n kv by (auto simp: u_def split: option.splits)
  with step ih show ?case by (simp only:)
qed

lemma unmarshal_marshal:
  assumes "range_of mp kvs" and "keys_ok mp"
  shows "unmarshal_lines (Lines (marshal_entries kvs)) mp0 k =
     (case mp k of Some v \<Rightarrow> Some (UnEscReturns (EscReturns v)) | None \<Rightarrow> mp0 k)"
proof -
  have d: "fst ` set kvs = dom mp" using assms(1) by (rule range_of_dom)
  have ok: "\<forall>k \<in> fst ` set kvs. key_ok k"
    using assms(2) d by (auto simp: keys_ok_def)
  then have l: "\<forall>k \<in> fst ` set kvs. LF \<notin> set k" and e: "\<forall>k \<in> fst ` set kvs. EQS \<notin> set k"
    by (auto simp: key_ok_def)
  have dist: "distinct (map fst kvs)" and m: "map_of kvs = mp"
    using assms(1) by (auto simp: range_of_def)
  show ?thesis
    using Lines_marshal_entries [OF l] unmarshal_entry_lines [OF dist e, of mp0 k] m by simp
qed

lemma unmarshal_lines_add:
  "unmarshal_lines ls mp = mp ++ unmarshal_lines ls Map.empty"
proof (induction ls arbitrary: mp)
  case Nil
  then show ?case by simp
next
  case (Cons l ls)
  show ?case
  proof (cases "length (SplitN2 l EQS) = 2")
    case False
    then show ?thesis using Cons.IH [of mp] by simp
  next
    case True
    define a where "a = SplitN2 l EQS ! 0"
    define b where "b = UnEscReturns (SplitN2 l EQS ! 1)"
    have s1: "unmarshal_lines (l # ls) mp = unmarshal_lines ls (mp(a \<mapsto> b))"
      using True by (simp add: a_def b_def Let_def)
    have s2: "unmarshal_lines (l # ls) Map.empty = unmarshal_lines ls [a \<mapsto> b]"
      using True by (simp add: a_def b_def Let_def)
    have "unmarshal_lines ls (mp(a \<mapsto> b)) = mp(a \<mapsto> b) ++ unmarshal_lines ls Map.empty"
      by (rule Cons.IH)
    also have "\<dots> = (mp ++ [a \<mapsto> b]) ++ unmarshal_lines ls Map.empty"
      by simp
    also have "\<dots> = mp ++ ([a \<mapsto> b] ++ unmarshal_lines ls Map.empty)"
      by (simp only: map_add_assoc)
    also have "[a \<mapsto> b] ++ unmarshal_lines ls Map.empty = unmarshal_lines ls [a \<mapsto> b]"
      by (rule Cons.IH [symmetric])
    finally show ?thesis by (simp only: s1 s2)
  qed
qed

lemma unmarshal_lines_idem:
  "unmarshal_lines ls (unmarshal_lines ls mp) = unmarshal_lines ls mp"
proof -
  have "unmarshal_lines ls (unmarshal_lines ls mp)
          = (mp ++ unmarshal_lines ls Map.empty) ++ unmarshal_lines ls Map.empty"
    using unmarshal_lines_add [of ls "unmarshal_lines ls mp"] unmarshal_lines_add [of ls mp]
    by simp
  also have "\<dots> = mp ++ (unmarshal_lines ls Map.empty ++ unmarshal_lines ls Map.empty)"
    by (simp only: map_add_assoc)
  also have "\<dots> = mp ++ unmarshal_lines ls Map.empty"
    by (simp add: map_add_subsumed2)
  finally show ?thesis using unmarshal_lines_add [of ls mp] by simp
qed

lemma set_lines_from:
  "l \<in> set (lines_from cur s) \<Longrightarrow> LF \<notin> set cur \<Longrightarrow> LF \<notin> set l"
proof (induction s arbitrary: cur)
  case Nil
  then show ?case by (auto split: if_splits)
next
  case (Cons c s)
  show ?case
  proof (cases "c = LF")
    case True
    then have "l = cur \<or> l \<in> set (lines_from [] s)" using Cons.prems(1) by simp
    then show ?thesis using Cons.prems(2) Cons.IH [of "[]"] by auto
  next
    case False
    then show ?thesis using Cons.prems Cons.IH [of "cur @ [c]"] by simp
  qed
qed

lemma Lines_no_LF: "l \<in> set (Lines s) \<Longrightarrow> LF \<notin> set l"
  using set_lines_from [of l "[]" s] by (simp add: Lines_def)

lemma cut_first_Some:
  "cut_first sep s = Some (a, b) \<Longrightarrow> sep \<notin> set a \<and> set a \<subseteq> set s"
  by (induction s arbitrary: a) (auto split: if_splits option.splits)

lemma line_keys_ok:
  "\<forall>l \<in> set ls. LF \<notin> set l \<Longrightarrow> k \<in> set (line_keys ls) \<Longrightarrow> key_ok k"
proof (induction ls)
  case Nil
  then show ?case by simp
next
  case (Cons l ls)
  show ?case
  proof (cases "cut_first EQS l")
    case None
    then show ?thesis using Cons by (simp add: SplitN2_def)
  next
    case (Some ab)
    obtain a b where ab: "ab = (a, b)" by (cases ab)
    have "key_ok a"
      using cut_first_Some [of EQS l a b] Some ab Cons.prems(1) by (auto simp: key_ok_def)
    then show ?thesis using Cons Some ab by (auto simp: SplitN2_def)
  qed
qed

lemma dom_unmarshal_lines: "dom (unmarshal_lines ls mp) = dom mp \<union> set (line_keys ls)"
  by (induction ls arbitrary: mp) (auto simp: Let_def)

lemma keys_ok_unmarshal:
  "keys_ok mp \<Longrightarrow> keys_ok (unmarshal_lines (Lines s) mp)"
  using line_keys_ok [of "Lines s"] Lines_no_LF [of _ s]
  by (auto simp: keys_ok_def dom_unmarshal_lines)

lemma loadFile_loaded:
  assumes "os_Open w p = Inr f" and "(SysRead, p) \<notin> faults w" and "(SysFstat, p) \<notin> faults w"
  shows "snd (loadFile w c p) = c\<lparr>lastload := mtime f, M := unmarshal_lines (Lines (content f)) (M c)\<rparr>"
  using assms by (simp add: loadFile_def Load_def UnmarshalText_def)

lemma loadFile_cases:
  "snd (loadFile w c p) = c
   \<or> (\<exists>f. os_Open w p = Inr f \<and> (SysRead, p) \<notin> faults w \<and> (SysFstat, p) \<notin> faults w)"
  by (cases "os_Open w p") (simp_all add: loadFile_def)

lemma os_Open_file: "os_Open w p = Inr f \<Longrightarrow> files w p = Some f"
  by (simp add: os_Open_def split: if_splits option.splits)

lemma refresh_M_cases:
  "M (snd (refresh w m)) = M m
   \<or> (\<exists>f. files w (File m) = Some f
          \<and> M (snd (refresh w m)) = unmarshal_lines (Lines (content f)) (M m))"
proof (cases "fileHasChanged w m")
  case False
  then show ?thesis by (simp add: refresh_def)
next
  case True
  then have r: "refresh w m = loadFile w m (File m)" by (simp add: refresh_def)
  from loadFile_cases [of w m "File m"] show ?thesis
  proof
    assume "snd (loadFile w m (File m)) = m"
    then show ?thesis using r by simp
  next
    assume "\<exists>f. os_Open w (File m) = Inr f \<and> (SysRead, File m) \<notin> faults w
              \<and> (SysFstat, File m) \<notin> faults w"
    then obtain f where f: "os_Open w (File m) = Inr f" "(SysRead, File m) \<notin> faults w"
        "(SysFstat, File m) \<notin> faults w" by blast
    from loadFile_loaded [OF f, of m] os_Open_file [OF f(1)] r show ?thesis by simp
  qed
qed

lemma keys_ok_refresh: "keys_ok (M m) \<Longrightarrow> keys_ok (M (snd (refresh w m)))"
  using refresh_M_cases [of w m] keys_ok_unmarshal [of "M m"] by auto

lemma refresh_idem_M: "M (snd (refresh w (snd (refresh w m)))) = M (snd (refresh w m))"
proof (cases "fileHasChanged w m")
  case False
  then show ?thesis by (simp add: refresh_def)
next
  case True
  then have r: "refresh w m = loadFile w m (File m)" by (simp add: refresh_def)
  from loadFile_cases [of w m "File m"] show ?thesis
  proof
    assume "snd (loadFile w m (File m)) = m"
    then show ?thesis using r by simp
  next
    assume "\<exists>f. os_Open w (File m) = Inr f \<and> (SysRead, File m) \<notin> faults w
              \<and> (SysFstat, File m) \<notin> faults w"
    then obtain f where f: "os_Open w (File m) = Inr f" "(SysRead, File m) \<notin> faults w"
        "(SysFstat, File m) \<notin> faults w" by blast
    define m' where "m' = snd (refresh w m)"
    have m': "m' = m\<lparr>lastload := mtime f, M := unmarshal_lines (Lines (content f)) (M m)\<rparr>"
      using loadFile_loaded [OF f, of m] r by (simp add: m'_def)
    then have fm: "File m' = File m" by simp
    have "M (snd (refresh w m')) = M m'"
    proof (cases "fileHasChanged w m'")
      case False
      then show ?thesis by (simp add: refresh_def)
    next
      case True
      then have "refresh w m' = loadFile w m' (File m)" by (simp add: refresh_def fm)
      then show ?thesis
        using loadFile_loaded [OF f, of m'] m' by (simp add: unmarshal_lines_idem)
    qed
    then show ?thesis by (simp add: m'_def)
  qed
qed

lemma Set_suppressed:
  "M (snd (refresh w m)) k = Some v \<Longrightarrow> Set ord w m k v = (None, snd (refresh w m), w)"
  by (cases "refresh w m") (simp add: Set_def)

lemma Set_written:
  "M (snd (refresh w m)) k \<noteq> Some v \<Longrightarrow>
   Set ord w m k v =
     (case Overwrite w (File m) (marshal_entries (ord ((M (snd (refresh w m)))(k \<mapsto> v)))) of
        (e, w') \<Rightarrow> (e, (snd (refresh w m))\<lparr>M := (M (snd (refresh w m)))(k \<mapsto> v)\<rparr>, w'))"
  using File_refresh [of w m]
  by (cases "refresh w m")
     (auto simp: Set_def save_def MarshalText_def Let_def split: option.splits)

lemma Set_written_file:
  assumes "M (snd (refresh w m)) k \<noteq> Some v" and "Set ord w m k v = (None, m1, w1)"
  shows "files w1 (File m) = Some \<lparr>content = marshal_entries (ord (M m1)), mtime = now w\<rparr>
       \<and> writes w1 = Suc (writes w)"
  using assms(2) Set_written [OF assms(1), of ord]
  by (auto simp: Overwrite_def split: prod.splits if_splits)

lemma Set_then_cached:
  assumes ok: "keys_ok (M m)" "key_ok k" "no_escape_pair v"
      and set: "Set ord w m k v = (None, m1, w1)"
      and rng: "range_of (M m1) (ord (M m1))"
  shows "M m1 k = Some v \<and> keys_ok (M m1) \<and> M (snd (refresh w1 m1)) k = Some v"
proof -
  define m' where "m' = snd (refresh w m)"
  have ok': "keys_ok (M m')" using ok(1) by (simp add: m'_def keys_ok_refresh)
  show ?thesis
  proof (cases "M m' k = Some v")
    case True
    then have "Set ord w m k v = (None, m', w)"
      using Set_suppressed [of w m k v ord] by (simp add: m'_def)
    then have "m1 = m'" "w1 = w"
      using set by simp_all
    then show ?thesis
      using True ok' refresh_idem_M [of w m] by (simp add: m'_def)
  next
    case False
    define T where "T = marshal_entries (ord ((M m')(k \<mapsto> v)))"
    have s: "Set ord w m k v =
        (case Overwrite w (File m) T of (e, w') \<Rightarrow> (e, m'\<lparr>M := (M m')(k \<mapsto> v)\<rparr>, w'))"
      using False Set_written [of w m k v ord] by (simp add: m'_def T_def)
    have m1: "m1 = m'\<lparr>M := (M m')(k \<mapsto> v)\<rparr>"
      using s set by (auto split: prod.splits)
    have w1: "files w1 (File m) = Some \<lparr>content = T, mtime = now w\<rparr>"
      using s set by (auto simp: Overwrite_def split: prod.splits if_splits)
    have c: "M m1 k = Some v" by (simp add: m1)
    have ok1: "keys_ok (M m1)"
      using ok' ok(2) by (auto simp: m1 keys_ok_def)
    have T1: "T = marshal_entries (ord (M m1))" by (simp add: T_def m1)
    have f1: "File m1 = File m" using File_refresh [of w m] by (simp add: m1 m'_def)
    from refresh_M_cases [of w1 m1] have "M (snd (refresh w1 m1)) k = Some v"
    proof
      assume "M (snd (refresh w1 m1)) = M m1"
      then show ?thesis using c by simp
    next
      assume "\<exists>f. files w1 (File m1) = Some f
               \<and> M (snd (refresh w1 m1)) = unmarshal_lines (Lines (content f)) (M m1)"
      then have "M (snd (refresh w1 m1)) = unmarshal_lines (Lines (marshal_entries (ord (M m1)))) (M m1)"
        using w1 f1 T1 by auto
      then show ?thesis
        using unmarshal_marshal [OF rng ok1, of "M m1" k] c UnEsc_Esc [OF ok(3)] by simp
    qed
    then show ?thesis using c ok1 by simp
  qed
qed

lemma refresh_keeps_bad_key:
  assumes "\<not> key_ok k"
  shows "M (snd (refresh w m)) k = M m k"
proof -
  have n: "k \<notin> set (line_keys (Lines s))" for s
    using line_keys_ok [of "Lines s" k] Lines_no_LF [of _ s] assms by blast
  from refresh_M_cases [of w m] show ?thesis
  proof
    assume "M (snd (refresh w m)) = M m"
    then show ?thesis by simp
  next
    assume "\<exists>f. files w (File m) = Some f
          \<and> M (snd (refresh w m)) = unmarshal_lines (Lines (content f)) (M m)"
    then obtain f :: disk_file
      where "M (snd (refresh w m)) = unmarshal_lines (Lines (content f)) (M m)"
      by auto
    then show ?thesis using unmarshal_lines_frame [OF n, of "content f" "M m"] by simp
  qed
qed

lemma Set_written_value:
  assumes "M (snd (refresh w m)) k \<noteq> Some v" and "Set ord w m k v = (e, m1, w1)"
  shows "M m1 k = Some v"
  using assms(2) Set_written [OF assms(1), of ord]
  by (auto split: prod.splits)

subsection \<open>Set, then Get\<close>

text \<open>
  C1, as the code has it. Take a store whose keys have neither an equals sign nor a line feed,
  a key \<open>k\<close> of that kind, and a value \<open>v\<close> in which no backslash is followed by r or n
  (equals signs, carriage returns and line feeds are allowed). When Set(k, v) succeeds, the
  next Get(k) returns exactly \<open>v\<close>; a fresh store loaded from the serialized text of the
  mapping holds \<open>v\<close> for \<open>k\<close>; that text is the content of the backing file when the key
  was not cached with the value before, so that Set wrote; and unescaping the escaped \<open>v\<close>
  gives \<open>v\<close> back.
\<close>

theorem Set_Get_round_trip:
  assumes "keys_ok (M m)" and "key_ok k" and "no_escape_pair v"
      and "Set ord w m k v = (None, m1, w1)"
      and "range_of (M m1) (ord (M m1))"
  shows "fst (Get w1 m1 k) = (v, None)
       \<and> M (snd (Load NewMap (fst (MarshalText ord m1)))) k = Some v
       \<and> (M (snd (refresh w m)) k \<noteq> Some v \<longrightarrow>
            files w1 (File m) = Some \<lparr>content = fst (MarshalText ord m1), mtime = now w\<rparr>)
       \<and> UnEscReturns (EscReturns v) = v"
proof -
  from Set_then_cached [OF assms]
  have c: "M m1 k = Some v" and ok1: "keys_ok (M m1)"
    and r: "M (snd (refresh w1 m1)) k = Some v" by simp_all
  have g: "fst (Get w1 m1 k) = (v, None)"
    using r by (cases "refresh w1 m1") (simp add: Get_def)
  have l: "M (snd (Load NewMap (fst (MarshalText ord m1)))) k = Some v"
    using unmarshal_marshal [OF assms(5) ok1, of "M NewMap" k] c UnEsc_Esc [OF assms(3)]
    by (simp add: Load_def UnmarshalText_def MarshalText_def)
  have f: "M (snd (refresh w m)) k \<noteq> Some v \<longrightarrow>
            files w1 (File m) = Some \<lparr>content = fst (MarshalText ord m1), mtime = now w\<rparr>"
    using Set_written_file [of w m k v ord m1 w1] assms(4) by (simp add: MarshalText_def)
  show ?thesis using g l f UnEsc_Esc [OF assms(3)] by simp
qed

theorem Set_Get_round_trip_witness:
  "keys_ok (M (store_of ''f'' Map.empty))
   \<and> key_ok ''k''
   \<and> no_escape_pair (''a=b'' @ [CR, LF] @ ''c'')
   \<and> Set (\<lambda>mp. [(''k'', ''a=b'' @ [CR, LF] @ ''c'')]) no_files (store_of ''f'' Map.empty)
         ''k'' (''a=b'' @ [CR, LF] @ ''c'')
       = (None, store_of ''f'' [''k'' \<mapsto> ''a=b'' @ [CR, LF] @ ''c''],
          \<lparr>files = [''f'' \<mapsto> \<lparr>content = ''k=a=b'' @ [BSL, CHR ''r'', BSL, CHR ''n''] @ ''c'' @ [LF],
                              mtime = 1\<rparr>],
           faults = {}, now = 1, writes = 1\<rparr>)
   \<and> fst (Get \<lparr>files = [''f'' \<mapsto> \<lparr>content = ''k=a=b'' @ [BSL, CHR ''r'', BSL, CHR ''n''] @ ''c'' @ [LF],
                              mtime = 1\<rparr>],
                faults = {}, now = 1, writes = 1\<rparr>
              (store_of ''f'' [''k'' \<mapsto> ''a=b'' @ [CR, LF] @ ''c'']) ''k'')
       = (''a=b'' @ [CR, LF] @ ''c'', None)
   \<and> M (snd (Load NewMap (fst (MarshalText (\<lambda>mp. [(''k'', ''a=b'' @ [CR, LF] @ ''c'')])
                                  (store_of ''f'' [''k'' \<mapsto> ''a=b'' @ [CR, LF] @ ''c''])))))
        ''k'' = Some (''a=b'' @ [CR, LF] @ ''c'')
   \<and> M (snd (refresh no_files (store_of ''f'' Map.empty))) ''k'' \<noteq> Some (''a=b'' @ [CR, LF] @ ''c'')
   \<and> fst (MarshalText (\<lambda>mp. [(''k'', ''a=b'' @ [CR, LF] @ ''c'')])
                        (store_of ''f'' [''k'' \<mapsto> ''a=b'' @ [CR, LF] @ ''c'']))
       = ''k=a=b'' @ [BSL, CHR ''r'', BSL, CHR ''n''] @ ''c'' @ [LF]"
proof -
  have h0: "M (snd (refresh no_files (store_of ''f'' Map.empty))) ''k'' \<noteq> Some (''a=b'' @ [CR, LF] @ ''c'')"
    by (simp add: set_defs)
  have h6: "fst (MarshalText (\<lambda>mp. [(''k'', ''a=b'' @ [CR, LF] @ ''c'')])
                        (store_of ''f'' [''k'' \<mapsto> ''a=b'' @ [CR, LF] @ ''c'']))
       = ''k=a=b'' @ [BSL, CHR ''r'', BSL, CHR ''n''] @ ''c'' @ [LF]"
    by (simp add: set_defs)
  have h1: "keys_ok (M (store_of ''f'' Map.empty))"
    by (simp add: keys_ok_def store_of_def)
  have h2: "key_ok ''k''"
    by (simp add: key_ok_def EQS_def LF_def)
  have h3: "no_escape_pair (''a=b'' @ [CR, LF] @ ''c'')"
    by (simp add: CR_def LF_def BSL_def)
  have h4: "Set (\<lambda>mp. [(''k'', ''a=b'' @ [CR, LF] @ ''c'')]) no_files (store_of ''f'' Map.empty)
         ''k'' (''a=b'' @ [CR, LF] @ ''c'')
       = (None, store_of ''f'' [''k'' \<mapsto> ''a=b'' @ [CR, LF] @ ''c''],
          \<lparr>files = [''f'' \<mapsto> \<lparr>content = ''k=a=b'' @ [BSL, CHR ''r'', BSL, CHR ''n''] @ ''c'' @ [LF],
                              mtime = 1\<rparr>],
           faults = {}, now = 1, writes = 1\<rparr>)"
    by (simp add: set_defs)
  have h5: "range_of (M (store_of ''f'' [''k'' \<mapsto> ''a=b'' @ [CR, LF] @ ''c'']))
              ((\<lambda>mp. [(''k'', ''a=b'' @ [CR, LF] @ ''c'')])
                 (M (store_of ''f'' [''k'' \<mapsto> ''a=b'' @ [CR, LF] @ ''c''])))"
    by (simp add: range_of_def store_of_def)
  from Set_Get_round_trip [OF h1 h2 h3 h4 h5] h0 h1 h2 h3 h4 h6
  show ?thesis by blast
qed

text \<open>
  The claim C1 as the spec states it fails in four ways. A key with a line feed is written
  over two lines, and the store loaded from the file does not have it. The value backslash-n
  is written as it is and read back as a line feed, already by the Get that follows the Set.
  A key with a line feed that another Set left in the store can shadow the key on reload.
  And a Set that finds the value cached writes nothing, so that a store loaded from the
  backing file need not have the key at all.
\<close>

theorem Set_Get_round_trip_counterexample:
  "Set (\<lambda>mp. [(''a'' @ [LF] @ ''b'', ''v'')]) no_files (store_of ''f'' Map.empty)
       (''a'' @ [LF] @ ''b'') ''v''
     = (None, store_of ''f'' [''a'' @ [LF] @ ''b'' \<mapsto> ''v''],
        \<lparr>files = [''f'' \<mapsto> \<lparr>content = ''a'' @ [LF] @ ''b=v'' @ [LF], mtime = 1\<rparr>],
         faults = {}, now = 1, writes = 1\<rparr>)
   \<and> NewMapFrom \<lparr>files = [''f'' \<mapsto> \<lparr>content = ''a'' @ [LF] @ ''b=v'' @ [LF], mtime = 1\<rparr>],
                  faults = {}, now = 1, writes = 1\<rparr> ''f''
     = (\<lparr>M = [''b'' \<mapsto> ''v''], File = ''f'', lastload = 1\<rparr>, None)
   \<and> fst (Get \<lparr>files = [''f'' \<mapsto> \<lparr>content = ''a'' @ [LF] @ ''b=v'' @ [LF], mtime = 1\<rparr>],
                faults = {}, now = 1, writes = 1\<rparr>
              \<lparr>M = [''b'' \<mapsto> ''v''], File = ''f'', lastload = 1\<rparr> (''a'' @ [LF] @ ''b''))
     = ([], Some (NotFound (''a'' @ [LF] @ ''b'')))
   \<and> Set (\<lambda>mp. [(''k'', [BSL, CHR ''n''])]) no_files (store_of ''f'' Map.empty) ''k'' [BSL, CHR ''n'']
     = (None, store_of ''f'' [''k'' \<mapsto> [BSL, CHR ''n'']],
        \<lparr>files = [''f'' \<mapsto> \<lparr>content = ''k='' @ [BSL, CHR ''n'', LF], mtime = 1\<rparr>],
         faults = {}, now = 1, writes = 1\<rparr>)
   \<and> fst (Get \<lparr>files = [''f'' \<mapsto> \<lparr>content = ''k='' @ [BSL, CHR ''n'', LF], mtime = 1\<rparr>],
                faults = {}, now = 1, writes = 1\<rparr>
              (store_of ''f'' [''k'' \<mapsto> [BSL, CHR ''n'']]) ''k'')
     = ([LF], None)
   \<and> [LF] \<noteq> [BSL, CHR ''n'']
   \<and> UnEscReturns (EscReturns [BSL, CHR ''n'']) = [LF]
   \<and> Set (\<lambda>mp. [(''k'', ''v''), (''x'' @ [LF] @ ''k'', ''zz'')]) no_files
         (store_of ''f'' [''x'' @ [LF] @ ''k'' \<mapsto> ''zz'']) ''k'' ''v''
     = (None, store_of ''f'' [''x'' @ [LF] @ ''k'' \<mapsto> ''zz'', ''k'' \<mapsto> ''v''],
        \<lparr>files = [''f'' \<mapsto> \<lparr>content = ''k=v'' @ [LF] @ ''x'' @ [LF] @ ''k=zz'' @ [LF], mtime = 1\<rparr>],
         faults = {}, now = 1, writes = 1\<rparr>)
   \<and> fst (Get \<lparr>files = [''f'' \<mapsto> \<lparr>content = ''k=v'' @ [LF] @ ''x'' @ [LF] @ ''k=zz'' @ [LF], mtime = 1\<rparr>],
                faults = {}, now = 1, writes = 1\<rparr>
              (store_of ''f'' [''x'' @ [LF] @ ''k'' \<mapsto> ''zz'', ''k'' \<mapsto> ''v'']) ''k'')
     = (''zz'', None)
   \<and> Set (\<lambda>mp. [(''k'', ''v'')]) no_files (store_of ''f'' [''k'' \<mapsto> ''v'']) ''k'' ''v''
     = (None, store_of ''f'' [''k'' \<mapsto> ''v''], no_files)
   \<and> NewMapFrom no_files ''f'' = (store_of ''f'' Map.empty, Some (PathError SysOpen ''f''))
   \<and> fst (Get no_files (store_of ''f'' Map.empty) ''k'') = ([], Some (NotFound ''k''))"
  by (simp add: set_defs)

subsection \<open>Write suppression\<close>

text \<open>
  C5, as the code has it. When the key maps to exactly the value after the refresh, Set
  returns success and hands back the file system unchanged: no write, same content, same
  modification time. When it does not and the first Set succeeds, two calls of Set with the
  same key and value perform exactly one disk write, the second call being suppressed, in
  each of two cases: the key has an equals sign or a line feed, so that no reload assigns
  it; or the key has neither, the store is well-keyed, and the value has no backslash
  followed by r or n.
\<close>

theorem Set_write_suppression:
  "(M (snd (refresh w m)) k = Some v \<longrightarrow> Set ord w m k v = (None, snd (refresh w m), w))
   \<and> (M (snd (refresh w m)) k \<noteq> Some v
      \<and> Set ord w m k v = (None, m1, w1)
      \<and> (key_ok k \<longrightarrow> keys_ok (M m) \<and> no_escape_pair v \<and> range_of (M m1) (ord (M m1)))
      \<longrightarrow> writes w1 = Suc (writes w)
          \<and> Set_twice ord w m k v = (None, snd (refresh w1 m1), w1))"
proof (intro conjI impI)
  assume "M (snd (refresh w m)) k = Some v"
  then show "Set ord w m k v = (None, snd (refresh w m), w)" by (rule Set_suppressed)
next
  assume a: "M (snd (refresh w m)) k \<noteq> Some v
      \<and> Set ord w m k v = (None, m1, w1)
      \<and> (key_ok k \<longrightarrow> keys_ok (M m) \<and> no_escape_pair v \<and> range_of (M m1) (ord (M m1)))"
  then have n: "M (snd (refresh w m)) k \<noteq> Some v"
    and s1: "Set ord w m k v = (None, m1, w1)" by simp_all
  have c: "M (snd (refresh w1 m1)) k = Some v"
  proof (cases "key_ok k")
    case True
    with a have "keys_ok (M m)" "no_escape_pair v" "range_of (M m1) (ord (M m1))"
      by simp_all
    from Set_then_cached [OF this(1) True this(2) s1 this(3)] show ?thesis by simp
  next
    case False
    then show ?thesis
      using refresh_keeps_bad_key [of k w1 m1] Set_written_value [OF n s1] by simp
  qed
  then have "Set ord w1 m1 k v = (None, snd (refresh w1 m1), w1)" by (rule Set_suppressed)
  then show "Set_twice ord w m k v = (None, snd (refresh w1 m1), w1)"
    by (simp add: Set_twice_def s1)
  show "writes w1 = Suc (writes w)"
    using n s1 Set_written_file [of w m k v ord m1 w1] by simp
qed

theorem Set_write_suppression_witness:
  "M (snd (refresh (one_file ''f'' ''k=v'') (store_of ''f'' Map.empty))) ''k'' = Some ''v''
   \<and> Set (\<lambda>mp. [(''k'', ''v'')]) (one_file ''f'' ''k=v'') (store_of ''f'' Map.empty) ''k'' ''v''
       = (None, \<lparr>M = [''k'' \<mapsto> ''v''], File = ''f'', lastload = 1\<rparr>, one_file ''f'' ''k=v'')
   \<and> key_ok ''k''
   \<and> M (snd (refresh no_files (store_of ''f'' Map.empty))) ''k'' \<noteq> Some ''v''
   \<and> Set (\<lambda>mp. [(''k'', ''v'')]) no_files (store_of ''f'' Map.empty) ''k'' ''v''
       = (None, store_of ''f'' [''k'' \<mapsto> ''v''],
          \<lparr>files = [''f'' \<mapsto> \<lparr>content = ''k=v'' @ [LF], mtime = 1\<rparr>],
           faults = {}, now = 1, writes = 1\<rparr>)
   \<and> fst (Set_twice (\<lambda>mp. [(''k'', ''v'')]) no_files (store_of ''f'' Map.empty) ''k'' ''v'') = None
   \<and> writes (snd (snd (Set_twice (\<lambda>mp. [(''k'', ''v'')]) no_files (store_of ''f'' Map.empty) ''k'' ''v'')))
       = Suc (writes no_files)
   \<and> \<not> key_ok ''a=b''
   \<and> M (snd (refresh no_files (store_of ''f'' Map.empty))) ''a=b'' \<noteq> Some ''c''
   \<and> Set (\<lambda>mp. [(''a=b'', ''c'')]) no_files (store_of ''f'' Map.empty) ''a=b'' ''c''
       = (None, store_of ''f'' [''a=b'' \<mapsto> ''c''],
          \<lparr>files = [''f'' \<mapsto> \<lparr>content = ''a=b=c'' @ [LF], mtime = 1\<rparr>],
           faults = {}, now = 1, writes = 1\<rparr>)
   \<and> fst (Set_twice (\<lambda>mp. [(''a=b'', ''c'')]) no_files (store_of ''f'' Map.empty) ''a=b'' ''c'') = None
   \<and> writes (snd (snd (Set_twice (\<lambda>mp. [(''a=b'', ''c'')]) no_files (store_of ''f'' Map.empty) ''a=b'' ''c'')))
       = Suc (writes no_files)"
proof -
  let ?w1 = "\<lparr>files = [''f'' \<mapsto> \<lparr>content = ''k=v'' @ [LF], mtime = 1\<rparr>],
           faults = {}, now = 1, writes = 1\<rparr>"
  let ?w2 = "\<lparr>files = [''f'' \<mapsto> \<lparr>content = ''a=b=c'' @ [LF], mtime = 1\<rparr>],
           faults = {}, now = 1, writes = 1\<rparr>"
  let ?ord = "\<lambda>mp :: string \<rightharpoonup> string. [(''k'', ''v'')]"
  let ?ord2 = "\<lambda>mp :: string \<rightharpoonup> string. [(''a=b'', ''c'')]"
  have a1: "M (snd (refresh (one_file ''f'' ''k=v'') (store_of ''f'' Map.empty))) ''k'' = Some ''v''"
    by (simp add: set_defs)
  have a2: "snd (refresh (one_file ''f'' ''k=v'') (store_of ''f'' Map.empty))
              = \<lparr>M = [''k'' \<mapsto> ''v''], File = ''f'', lastload = 1\<rparr>"
    by (simp add: set_defs)
  have h1: "keys_ok (M (store_of ''f'' Map.empty))"
    by (simp add: keys_ok_def store_of_def)
  have h2: "key_ok ''k''"
    by (simp add: key_ok_def EQS_def LF_def)
  have h3: "no_escape_pair ''v''"
    by simp
  have h4: "M (snd (refresh no_files (store_of ''f'' Map.empty))) ''k'' \<noteq> Some ''v''"
    by (simp add: set_defs)
  have h5: "Set ?ord no_files (store_of ''f'' Map.empty) ''k'' ''v''
       = (None, store_of ''f'' [''k'' \<mapsto> ''v''], ?w1)"
    by (simp add: set_defs)
  have h6: "range_of (M (store_of ''f'' [''k'' \<mapsto> ''v''])) (?ord (M (store_of ''f'' [''k'' \<mapsto> ''v''])))"
    by (simp add: range_of_def store_of_def)
  have b2: "\<not> key_ok ''a=b''"
    by (simp add: key_ok_def EQS_def)
  have b4: "M (snd (refresh no_files (store_of ''f'' Map.empty))) ''a=b'' \<noteq> Some ''c''"
    by (simp add: set_defs)
  have b5: "Set ?ord2 no_files (store_of ''f'' Map.empty) ''a=b'' ''c''
       = (None, store_of ''f'' [''a=b'' \<mapsto> ''c''], ?w2)"
    by (simp add: set_defs)
  have s: "Set ?ord (one_file ''f'' ''k=v'') (store_of ''f'' Map.empty) ''k'' ''v''
       = (None, snd (refresh (one_file ''f'' ''k=v'') (store_of ''f'' Map.empty)), one_file ''f'' ''k=v'')"
    using Set_write_suppression [of "one_file ''f'' ''k=v''" "store_of ''f'' Map.empty" "''k''" "''v''" ?ord]
      a1 by blast
  have t: "writes ?w1 = Suc (writes no_files)
      \<and> Set_twice ?ord no_files (store_of ''f'' Map.empty) ''k'' ''v''
          = (None, snd (refresh ?w1 (store_of ''f'' [''k'' \<mapsto> ''v''])), ?w1)"
    using Set_write_suppression [of no_files "store_of ''f'' Map.empty" "''k''" "''v''" ?ord
        "store_of ''f'' [''k'' \<mapsto> ''v'']" ?w1]
      h1 h2 h3 h4 h5 h6 by blast
  then have t1: "fst (Set_twice ?ord no_files (store_of ''f'' Map.empty) ''k'' ''v'') = None"
    and t2: "writes (snd (snd (Set_twice ?ord no_files (store_of ''f'' Map.empty) ''k'' ''v'')))
       = Suc (writes no_files)"
    by simp_all
  have u: "writes ?w2 = Suc (writes no_files)
      \<and> Set_twice ?ord2 no_files (store_of ''f'' Map.empty) ''a=b'' ''c''
          = (None, snd (refresh ?w2 (store_of ''f'' [''a=b'' \<mapsto> ''c''])), ?w2)"
    using Set_write_suppression [of no_files "store_of ''f'' Map.empty" "''a=b''" "''c''" ?ord2
        "store_of ''f'' [''a=b'' \<mapsto> ''c'']" ?w2]
      b2 b4 b5 by blast
  then have u1: "fst (Set_twice ?ord2 no_files (store_of ''f'' Map.empty) ''a=b'' ''c'') = None"
    and u2: "writes (snd (snd (Set_twice ?ord2 no_files (store_of ''f'' Map.empty) ''a=b'' ''c'')))
       = Suc (writes no_files)"
    by simp_all
  from a1 s a2 h2 h4 h5 t1 t2 b2 b4 b5 u1 u2 show ?thesis by simp
qed

text \<open>
  The claim C5 as the spec states it fails in its second half: two calls of Set with the same
  value write twice for the value backslash-n (the reload between the calls reads it back as a
  line feed), not at all when the key had the value before, twice when a key with a
  line feed shadows the key on reload, and not at all when the write of the first call
  fails.
\<close>

theorem Set_twice_counterexample:
  "writes (snd (snd (Set_twice (\<lambda>mp. [(''k'', [BSL, CHR ''n''])]) no_files
                       (store_of ''f'' Map.empty) ''k'' [BSL, CHR ''n'']))) = 2
   \<and> writes (snd (snd (Set_twice (\<lambda>mp. [(''k'', ''v'')]) no_files
                       (store_of ''f'' [''k'' \<mapsto> ''v'']) ''k'' ''v''))) = 0
   \<and> writes (snd (snd (Set_twice (\<lambda>mp. [(''k'', ''v''), (''x'' @ [LF] @ ''k'', ''zz'')]) no_files
                       (store_of ''f'' [''x'' @ [LF] @ ''k'' \<mapsto> ''zz'']) ''k'' ''v''))) = 2
   \<and> fst (Set (\<lambda>mp. [(''k'', ''v'')]) (no_files\<lparr>faults := {(SysWrite, ''f'')}\<rparr>)
              (store_of ''f'' Map.empty) ''k'' ''v'') = Some (PathError SysWrite ''f'')
   \<and> writes (snd (snd (Set_twice (\<lambda>mp. [(''k'', ''v'')]) (no_files\<lparr>faults := {(SysWrite, ''f'')}\<rparr>)
                       (store_of ''f'' Map.empty) ''k'' ''v''))) = 0"
  by (simp add: Set_twice_def set_defs)

subsection \<open>Delete\<close>

lemma marshal_entries_lines:
  "marshal_entries kvs = concat (map (\<lambda>kv. entry_line kv @ [LF]) kvs)"
  by (induction kvs) auto

lemma range_of_set: "range_of mp kvs \<Longrightarrow> set kvs = {(k, v). mp k = Some v}"
  by (auto simp: range_of_def)

text \<open>
  C8. When the refresh succeeds and the backing file can be written, Delete returns no error
  whether or not the key is present; the key is absent from the mapping afterwards, and a
  mapping that did not hold the key is unchanged. The backing file is overwritten with one
  line, key=escaped value, for every entry of the resulting mapping and nothing else: the
  range visits exactly the entries of that mapping, each once. For a well-keyed mapping the
  file read back has exactly the keys of the resulting mapping, each with its value escaped
  and unescaped.
\<close>

theorem Delete_idempotent_and_persists:
  assumes "fst (refresh w m) = None" and "(SysWrite, File m) \<notin> faults w"
      and "range_of ((M (snd (refresh w m)))(key := None))
             (ord ((M (snd (refresh w m)))(key := None)))"
  shows "Delete ord w m key =
           (None,
            (snd (refresh w m))\<lparr>M := (M (snd (refresh w m)))(key := None)\<rparr>,
            w\<lparr>files := (files w)(File m \<mapsto>
                 \<lparr>content = concat (map (\<lambda>kv. entry_line kv @ [LF])
                                (ord ((M (snd (refresh w m)))(key := None)))),
                  mtime = now w\<rparr>),
              writes := Suc (writes w)\<rparr>)
         \<and> set (ord ((M (snd (refresh w m)))(key := None)))
             = {(k, v). ((M (snd (refresh w m)))(key := None)) k = Some v}
         \<and> (M (snd (refresh w m)) key = None \<longrightarrow>
              M (fst (snd (Delete ord w m key))) = M (snd (refresh w m)))
         \<and> (keys_ok (M (snd (refresh w m))) \<longrightarrow>
              unmarshal_lines
                (Lines (concat (map (\<lambda>kv. entry_line kv @ [LF])
                                  (ord ((M (snd (refresh w m)))(key := None))))))
                Map.empty
              = (\<lambda>k'. map_option (\<lambda>v. UnEscReturns (EscReturns v))
                         (((M (snd (refresh w m)))(key := None)) k')))"
proof -
  define mp where "mp = (M (snd (refresh w m)))(key := None)"
  obtain m' where r: "refresh w m = (None, m')"
    using assms(1) by (cases "refresh w m") auto
  have f: "File m' = File m"
    using File_refresh [of w m] r by simp
  have mp: "mp = (M m')(key := None)" using r by (simp add: mp_def)
  have rng: "range_of mp (ord mp)" using assms(3) by (simp add: mp_def)
  have d: "Delete ord w m key =
           (None, m'\<lparr>M := mp\<rparr>,
            w\<lparr>files := (files w)(File m \<mapsto>
                 \<lparr>content = concat (map (\<lambda>kv. entry_line kv @ [LF]) (ord mp)), mtime = now w\<rparr>),
              writes := Suc (writes w)\<rparr>)"
    using assms(2) f marshal_entries_lines [of "ord mp"]
    by (simp add: Delete_def r save_def MarshalText_def Overwrite_def Let_def mp_def)
  have s: "set (ord mp) = {(k, v). mp k = Some v}"
    using rng by (rule range_of_set)
  have a: "M m' key = None \<longrightarrow> M (fst (snd (Delete ord w m key))) = M m'"
    by (auto simp: d mp)
  have l: "keys_ok (M m') \<longrightarrow>
      unmarshal_lines (Lines (concat (map (\<lambda>kv. entry_line kv @ [LF]) (ord mp)))) Map.empty
        = (\<lambda>k'. map_option (\<lambda>v. UnEscReturns (EscReturns v)) (mp k'))"
  proof
    assume "keys_ok (M m')"
    then have ok: "keys_ok mp" by (auto simp: keys_ok_def mp)
    show "unmarshal_lines (Lines (concat (map (\<lambda>kv. entry_line kv @ [LF]) (ord mp)))) Map.empty
        = (\<lambda>k'. map_option (\<lambda>v. UnEscReturns (EscReturns v)) (mp k'))"
    proof
      fix k'
      show "unmarshal_lines (Lines (concat (map (\<lambda>kv. entry_line kv @ [LF]) (ord mp)))) Map.empty k'
        = map_option (\<lambda>v. UnEscReturns (EscReturns v)) (mp k')"
        using unmarshal_marshal [OF rng ok, of Map.empty k'] marshal_entries_lines [of "ord mp"]
        by (simp split: option.splits)
    qed
  qed
  from d s a l show ?thesis using r by (simp add: mp_def)
qed

theorem Delete_idempotent_and_persists_witness:
  "fst (refresh (one_file ''f'' (''a=1'' @ [LF] @ ''b=2'')) (store_of ''f'' Map.empty)) = None
   \<and> (SysWrite, File (store_of ''f'' Map.empty)) \<notin> faults (one_file ''f'' (''a=1'' @ [LF] @ ''b=2''))
   \<and> M (snd (refresh (one_file ''f'' (''a=1'' @ [LF] @ ''b=2'')) (store_of ''f'' Map.empty)))
       = [''a'' \<mapsto> ''1'', ''b'' \<mapsto> ''2'']
   \<and> range_of ([''a'' \<mapsto> ''1'', ''b'' \<mapsto> ''2''](''zz'' := None)) [(''a'', ''1''), (''b'', ''2'')]
   \<and> Delete (\<lambda>mp. [(''a'', ''1''), (''b'', ''2'')]) (one_file ''f'' (''a=1'' @ [LF] @ ''b=2''))
         (store_of ''f'' Map.empty) ''zz''
       = (None, \<lparr>M = [''a'' \<mapsto> ''1'', ''b'' \<mapsto> ''2''], File = ''f'', lastload = 1\<rparr>,
          \<lparr>files = [''f'' \<mapsto> \<lparr>content = ''a=1'' @ [LF] @ ''b=2'' @ [LF], mtime = 1\<rparr>],
           faults = {}, now = 1, writes = 1\<rparr>)
   \<and> range_of ([''a'' \<mapsto> ''1'', ''b'' \<mapsto> ''2''](''a'' := None)) [(''b'', ''2'')]
   \<and> Delete (\<lambda>mp. [(''b'', ''2'')]) (one_file ''f'' (''a=1'' @ [LF] @ ''b=2''))
         (store_of ''f'' Map.empty) ''a''
       = (None, \<lparr>M = [''b'' \<mapsto> ''2''], File = ''f'', lastload = 1\<rparr>,
          \<lparr>files = [''f'' \<mapsto> \<lparr>content = ''b=2'' @ [LF], mtime = 1\<rparr>],
           faults = {}, now = 1, writes = 1\<rparr>)
   \<and> unmarshal_lines (Lines (''b=2'' @ [LF])) Map.empty = [''b'' \<mapsto> ''2'']"
proof -
  define w where "w = one_file ''f'' (''a=1'' @ [LF] @ ''b=2'')"
  define m where "m = store_of ''f'' Map.empty"
  have h1: "fst (refresh w m) = None"
    by (simp add: w_def m_def world_defs op_defs char_defs)
  have h2: "(SysWrite, File m) \<notin> faults w"
    by (simp add: w_def m_def world_defs)
  have r: "snd (refresh w m) = \<lparr>M = [''a'' \<mapsto> ''1'', ''b'' \<mapsto> ''2''], File = ''f'', lastload = 1\<rparr>"
    by (simp add: w_def m_def world_defs op_defs char_defs)
  have g1: "range_of ([''a'' \<mapsto> ''1'', ''b'' \<mapsto> ''2''](''zz'' := None)) [(''a'', ''1''), (''b'', ''2'')]"
    by (auto simp: range_of_def)
  have g2: "range_of ([''a'' \<mapsto> ''1'', ''b'' \<mapsto> ''2''](''a'' := None)) [(''b'', ''2'')]"
    by (auto simp: range_of_def)
  have k1: "range_of ((M (snd (refresh w m)))(''zz'' := None))
              ((\<lambda>mp. [(''a'', ''1''), (''b'', ''2'')]) ((M (snd (refresh w m)))(''zz'' := None)))"
    using g1 by (simp add: r)
  have k2: "range_of ((M (snd (refresh w m)))(''a'' := None))
              ((\<lambda>mp. [(''b'', ''2'')]) ((M (snd (refresh w m)))(''a'' := None)))"
    using g2 by (simp add: r)
  have ok: "keys_ok (M (snd (refresh w m)))"
    by (auto simp: r keys_ok_def key_ok_def EQS_def LF_def)
  note t1 = Delete_idempotent_and_persists [OF h1 h2 k1]
  note t2 = Delete_idempotent_and_persists [OF h1 h2 k2]
  have fw: "files w = [''f'' \<mapsto> \<lparr>content = ''a=1'' @ [LF] @ ''b=2'', mtime = 1\<rparr>]"
    "faults w = {}" "now w = 1" "writes w = 0" "File m = ''f''"
    by (simp_all add: w_def m_def one_file_def store_of_def)
  have d1: "Delete (\<lambda>mp. [(''a'', ''1''), (''b'', ''2'')]) w m ''zz''
       = (None, \<lparr>M = [''a'' \<mapsto> ''1'', ''b'' \<mapsto> ''2''], File = ''f'', lastload = 1\<rparr>,
          \<lparr>files = [''f'' \<mapsto> \<lparr>content = ''a=1'' @ [LF] @ ''b=2'' @ [LF], mtime = 1\<rparr>],
           faults = {}, now = 1, writes = 1\<rparr>)"
    using t1 [THEN conjunct1, unfolded r]
    by (simp add: w_def m_def one_file_def store_of_def EQS_def CR_def LF_def)
  have d2: "Delete (\<lambda>mp. [(''b'', ''2'')]) w m ''a''
       = (None, \<lparr>M = [''b'' \<mapsto> ''2''], File = ''f'', lastload = 1\<rparr>,
          \<lparr>files = [''f'' \<mapsto> \<lparr>content = ''b=2'' @ [LF], mtime = 1\<rparr>],
           faults = {}, now = 1, writes = 1\<rparr>)"
    using t2 [THEN conjunct1, unfolded r]
    by (simp add: w_def m_def one_file_def store_of_def EQS_def CR_def LF_def)
  have u: "unmarshal_lines (Lines (''b=2'' @ [LF])) Map.empty = [''b'' \<mapsto> ''2'']"
    using t2 [unfolded r] ok [unfolded r]
    by (auto simp: EQS_def CR_def LF_def BSL_def fun_eq_iff)
  have r': "M (snd (refresh w m)) = [''a'' \<mapsto> ''1'', ''b'' \<mapsto> ''2'']" by (simp add: r)
  from h1 h2 r' g1 d1 g2 d2 u show ?thesis unfolding w_def m_def by blast
qed

end
